theory Spec2Isabelle
  imports Complex_Main "HOL-Library.Log_Nat" "HOL-Library.Multiset"
begin

section \<open>Python arithmetic used by the converter\<close>

text \<open>
  Python's \<open>float\<close> is an IEEE-754 binary64 number.  Every finite double is a rational
  number, so a float value is modelled by the rational it denotes, and every float
  operation by the exact operation followed by rounding to the nearest number with a
  53-bit significand, ties to even (\<open>py_float\<close>).  Overflow and subnormal numbers are
  not modelled: the magnitudes that occur here (pixel counts, byte counts, seconds)
  stay far inside the normal range.
\<close>

definition ilog2 :: "rat \<Rightarrow> int" where
  \<comment> \<open>the exponent \<open>e\<close> with \<open>2^e \<le> x < 2^(e+1)\<close>, for \<open>x > 0\<close>\<close>
  "ilog2 x = (case quotient_of x of (p, q) \<Rightarrow>
     (let d = bitlen p - bitlen q in if 2 powi d \<le> x then d else d - 1))"

definition round_half_even :: "rat \<Rightarrow> int" where
  "round_half_even x =
     (let f = \<lfloor>x\<rfloor>; d = x - of_int f
      in if d < 1 / 2 then f
         else if 1 / 2 < d then f + 1
         else if even f then f else f + 1)"

definition py_float :: "rat \<Rightarrow> rat" where
  "py_float x =
     (if x = 0 then 0
      else (let e = ilog2 \<bar>x\<bar> - 52
            in sgn x * of_int (round_half_even (\<bar>x\<bar> / 2 powi e)) * 2 powi e))"

definition py_int :: "rat \<Rightarrow> int" where
  \<comment> \<open>\<open>int(x)\<close> of a float: truncation towards zero\<close>
  "py_int x = (if 0 \<le> x then \<lfloor>x\<rfloor> else \<lceil>x\<rceil>)"

definition int_truediv :: "int \<Rightarrow> int \<Rightarrow> rat" where
  \<comment> \<open>\<open>a / b\<close> on two ints, \<open>b \<noteq> 0\<close>: the correctly rounded quotient\<close>
  "int_truediv a b = py_float (of_int a / of_int b)"

definition float_of_int :: "int \<Rightarrow> rat" where
  \<comment> \<open>the conversion of an int operand of a mixed int/float operation\<close>
  "float_of_int n = py_float (of_int n)"

definition float_mul :: "rat \<Rightarrow> rat \<Rightarrow> rat" where
  "float_mul x y = py_float (x * y)"

definition float_div :: "rat \<Rightarrow> rat \<Rightarrow> rat" where
  \<comment> \<open>\<open>x / y\<close> on floats, \<open>y \<noteq> 0\<close>\<close>
  "float_div x y = py_float (x / y)"

definition float_sub :: "rat \<Rightarrow> rat \<Rightarrow> rat" where
  "float_sub x y = py_float (x - y)"

definition float_floordiv :: "rat \<Rightarrow> rat \<Rightarrow> rat" where
  \<comment> \<open>\<open>x // y\<close> on floats, \<open>y > 0\<close>: the floor of the exact quotient, as a float\<close>
  "float_floordiv x y = py_float (of_int \<lfloor>x / y\<rfloor>)"

definition float_mod :: "rat \<Rightarrow> rat \<Rightarrow> rat" where
  \<comment> \<open>\<open>x % y\<close> on floats, \<open>y > 0\<close>: \<open>fmod\<close> is exact, and the result takes the sign of \<open>y\<close>\<close>
  "float_mod x y = x - y * of_int \<lfloor>x / y\<rfloor>"

subsection \<open>Strings\<close>

fun str_nat :: "nat \<Rightarrow> string" where
  "str_nat n =
     (if n < 10 then [''0123456789'' ! n]
      else str_nat (n div 10) @ [''0123456789'' ! (n mod 10)])"

declare str_nat.simps [simp del]

definition str_int :: "int \<Rightarrow> string" where
  \<comment> \<open>\<open>str(i)\<close>, which is also what \<open>{i}\<close> renders in an f-string\<close>
  "str_int i = (if i < 0 then CHR ''-'' # str_nat (nat (- i)) else str_nat (nat i))"

definition format_2f :: "rat \<Rightarrow> string" where
  \<comment> \<open>\<open>{x:.2f}\<close>: the exact value rounded to two decimals, ties to even\<close>
  "format_2f x =
     (let n = nat (round_half_even (\<bar>x\<bar> * 100))
      in (if x < 0 then ''-'' else '''') @ str_nat (n div 100) @ ''.''
         @ [''0123456789'' ! (n mod 100 div 10), ''0123456789'' ! (n mod 10)])"

definition upper_char :: "char \<Rightarrow> char" where
  "upper_char c =
     (case map_of (zip ''abcdefghijklmnopqrstuvwxyz'' ''ABCDEFGHIJKLMNOPQRSTUVWXYZ'') c of
        Some u \<Rightarrow> u | None \<Rightarrow> c)"

definition lower_char :: "char \<Rightarrow> char" where
  "lower_char c =
     (case map_of (zip ''ABCDEFGHIJKLMNOPQRSTUVWXYZ'' ''abcdefghijklmnopqrstuvwxyz'') c of
        Some u \<Rightarrow> u | None \<Rightarrow> c)"

definition basename :: "string \<Rightarrow> string" where
  \<comment> \<open>\<open>os.path.basename\<close> (POSIX flavour): what follows the last slash\<close>
  "basename p = rev (takeWhile (\<lambda>c. c \<noteq> CHR ''/'') (rev p))"

definition splitext :: "string \<Rightarrow> string \<times> string" where
  \<comment> \<open>\<open>os.path.splitext\<close> on a name without slashes: split at the last dot, unless only
      dots (or nothing) stand before it\<close>
  "splitext b =
     (let e = takeWhile (\<lambda>c. c \<noteq> CHR ''.'') (rev b)
      in if length e = length b then (b, '''')
         else (let root = take (length b - length e - 1) b
               in if \<forall>c \<in> set root. c = CHR ''.'' then (b, '''')
                  else (root, CHR ''.'' # rev e)))"

definition path_join :: "string \<Rightarrow> string \<Rightarrow> string" where
  \<comment> \<open>\<open>os.path.join\<close> (POSIX flavour) of a directory and one further component\<close>
  "path_join a b =
     (if b \<noteq> '''' \<and> hd b = CHR ''/'' then b
      else if a = '''' \<or> last a = CHR ''/'' then a @ b
      else a @ ''/'' @ b)"

section \<open>The conversion thread\<close>

subsection \<open>Data\<close>

definition SUPPORTED_FORMATS :: "string list" where
  "SUPPORTED_FORMATS = [''PNG'', ''JPEG'', ''BMP'', ''GIF'', ''TIFF'', ''WEBP'', ''PDF'']"

text \<open>The three \<open>except\<close> clauses of the per-file \<open>try\<close>, in the order they are tried.\<close>

datatype exn = MemoryError | ImportError string | OtherException string

text \<open>The three signals of \<open>ConverterThread\<close>, with their arguments.\<close>

datatype event =
    Progress int string string
  | Error string string
  | Completion string nat nat nat nat

text \<open>
  The attributes of a \<open>ConverterThread\<close> that \<open>run\<close> reads or writes, the two locals of
  \<open>run\<close> that outlive an iteration, and the signals emitted so far, oldest first.
\<close>

record thread =
  files :: "string list"
  output_dir :: string
  target_format :: string
  psd_resolution :: string
  total_size :: nat
  processed_size :: nat
  start_time :: rat
  success_count :: nat
  failure_count :: nat
  last_output_path :: string
  output_total_size :: nat
  emitted :: "event list"

text \<open>
  What one iteration of the loop observes of the world outside \<open>run\<close>.  The flags
  \<open>_is_running\<close>, \<open>skip_all\<close> and \<open>skip_errors\<close> are attributes another thread may assign
  at any time, so each read is an observation of its own: \<open>skip_all\<close> is read once
  before the file is processed (line 95 or 110) and once more in an exception handler
  (line 289 or 306).
\<close>

record obs =
  is_running :: bool
  file_exists :: bool
  skip_all :: bool
  skip_errors :: "string list"
  skipped_size :: "nat option"
  input_size :: "nat option"
  opened :: "exn + (int \<times> int)"
  saved :: "exn option"
  skip_all_on_failure :: bool
  saved_size :: "nat option"
  clock :: rat

text \<open>
  \<open>skipped_size\<close> is \<open>os.path.getsize(file)\<close> at line 111, outside any \<open>try\<close>; \<open>input_size\<close>
  the guarded one at line 123; \<open>saved_size\<close> the one of the output file at line 320
  (\<open>None\<close> where the call raises \<open>OSError\<close>).  \<open>opened\<close> is the outcome of the decoding
  library (\<open>PSDImage.open\<close> and \<open>composite\<close>, the first page rendered by \<open>fitz\<close>, or
  \<open>Image.open\<close>): an exception, or the native width and height of what was decoded.
  \<open>saved\<close> is the outcome of \<open>resize\<close>, \<open>convert\<close> and \<open>save\<close>; \<open>clock\<close> is \<open>time.time()\<close> at
  line 331.
\<close>

record world =
  dir_exists :: bool
  makedirs_error :: "string option"
  clock_start :: rat
  path_exists :: "string \<Rightarrow> bool"
  getsize :: "string \<Rightarrow> nat option"
  pdf_converter :: bool
  observe :: "nat \<Rightarrow> obs"

subsection \<open>Construction\<close>

fun calculate_total_size :: "(string \<Rightarrow> nat option) \<Rightarrow> string list \<Rightarrow> nat" where
  "calculate_total_size gs [] = 0"
| "calculate_total_size gs (f # fs) =
     (case gs f of Some n \<Rightarrow> n | None \<Rightarrow> 0) + calculate_total_size gs fs"

definition init :: "(string \<Rightarrow> nat option) \<Rightarrow> string list \<Rightarrow> string \<Rightarrow> string \<Rightarrow> string \<Rightarrow> thread" where
  "init gs fs out fmt res =
     \<lparr>files = fs, output_dir = out, target_format = fmt, psd_resolution = res,
      total_size = calculate_total_size gs fs, processed_size = 0, start_time = 0,
      success_count = 0, failure_count = 0, last_output_path = [],
      output_total_size = 0, emitted = []\<rparr>"

subsection \<open>Resolution rules\<close>

definition psd_target :: "string \<Rightarrow> int \<times> int" where
  "psd_target res =
     (if res = ''HD'' then (1280, 720)
      else if res = ''FHD'' then (1920, 1080)
      else (3840, 2160))"

definition psd_dims :: "string \<Rightarrow> int \<times> int \<Rightarrow> exn + (int \<times> int)" where
  \<comment> \<open>lines 142 to 164\<close>
  "psd_dims res wh =
     (case wh of (width, height) \<Rightarrow>
      (case psd_target res of (target_width, target_height) \<Rightarrow>
        if height = 0 then Inl (OtherException ''division by zero'')
        else (let aspect_ratio = int_truediv width height
              in if int_truediv target_width target_height < aspect_ratio
                 then (let new_width = target_width;
                           new_height = py_int (float_div (float_of_int new_width) aspect_ratio)
                       in Inr (new_width, new_height))
                 else (let new_height = target_height;
                           new_width = py_int (float_mul (float_of_int new_height) aspect_ratio)
                       in Inr (new_width, new_height)))))"

definition raster_scale :: "int \<times> int \<Rightarrow> exn + (int \<times> int)" where
  \<comment> \<open>lines 198 to 214, and again lines 218 to 233\<close>
  "raster_scale wh =
     (case wh of (width, height) \<Rightarrow>
        if width = 0 \<or> height = 0 then Inl (OtherException ''division by zero'')
        else (let min_width = 3840; min_height = 2160;
                  scale_w = max 1 (int_truediv min_width width);
                  scale_h = max 1 (int_truediv min_height height);
                  scale = max scale_w scale_h
              in if 1 < scale
                 then Inr (py_int (float_mul (float_of_int width) scale),
                           py_int (float_mul (float_of_int height) scale))
                 else Inr (width, height)))"

definition raster_dims :: "nat \<Rightarrow> int \<times> int \<Rightarrow> exn + (int \<times> int)" where
  \<comment> \<open>lines 196 to 233: two branches by file size, with the same arithmetic\<close>
  "raster_dims file_size wh =
     (if 100 * 1024 * 1024 < int file_size then raster_scale wh else raster_scale wh)"

definition process :: "world \<Rightarrow> thread \<Rightarrow> string \<Rightarrow> nat \<Rightarrow> obs \<Rightarrow> exn + (int \<times> int)" where
  \<comment> \<open>the body of the \<open>try\<close>, lines 131 to 285: an exception, or the size of the image saved\<close>
  "process w t ext file_size ob =
     (let finish = (\<lambda>d. case saved ob of Some e \<Rightarrow> Inl e | None \<Rightarrow> Inr d)
      in if ext = ''PSD'' then
           (case opened ob of Inl e \<Rightarrow> Inl e
            | Inr wh \<Rightarrow> (case psd_dims (psd_resolution t) wh of Inl e \<Rightarrow> Inl e | Inr d \<Rightarrow> finish d))
         else if ext = ''PDF'' then
           (if pdf_converter w
            then (case opened ob of Inl e \<Rightarrow> Inl e | Inr wh \<Rightarrow> finish wh)
            else Inl (ImportError
              ''PDF conversion requires PyMuPDF. Please install with: pip install PyMuPDF''))
         else
           (case opened ob of Inl e \<Rightarrow> Inl e
            | Inr wh \<Rightarrow> (case raster_dims file_size wh of Inl e \<Rightarrow> Inl e | Inr d \<Rightarrow> finish d)))"

subsection \<open>Progress, ETA and speed\<close>

definition progress_percent :: "thread \<Rightarrow> nat \<Rightarrow> nat \<Rightarrow> int" where
  \<comment> \<open>lines 98, 112, 292, 309 and 328\<close>
  "progress_percent t i total_files =
     (if 0 < total_size t
      then py_int (float_mul (int_truediv (int (processed_size t)) (int (total_size t)))
                     (float_of_int 100))
      else py_int (float_mul (int_truediv (int i + 1) (int total_files)) (float_of_int 100)))"

definition format_eta :: "rat \<Rightarrow> string" where
  \<comment> \<open>lines 341 to 344\<close>
  "format_eta remaining_seconds =
     (if remaining_seconds < 60
      then ''ETA: '' @ str_int (py_int remaining_seconds) @ ''s''
      else ''ETA: '' @ str_int (py_int (float_floordiv remaining_seconds 60)) @ ''m ''
           @ str_int (py_int (float_mod remaining_seconds 60)) @ ''s'')"

definition remaining_time :: "rat \<Rightarrow> int \<Rightarrow> rat" where
  \<comment> \<open>lines 337 and 338\<close>
  "remaining_time elapsed_time progress =
     (let total_time_estimate = float_mul elapsed_time (int_truediv 100 progress)
      in float_sub total_time_estimate elapsed_time)"

definition eta_speed :: "thread \<Rightarrow> rat \<Rightarrow> int \<Rightarrow> string \<times> string" where
  \<comment> \<open>lines 331 to 352\<close>
  "eta_speed t now progress =
     (let elapsed_time = float_sub now (start_time t)
      in if 0 < elapsed_time \<and> 0 < processed_size t
         then (let mb_per_sec =
                     float_div (float_div (int_truediv (int (processed_size t)) 1024)
                                  (float_of_int 1024)) elapsed_time
               in (if 0 < progress then format_eta (remaining_time elapsed_time progress)
                   else ''ETA: Calculating...'',
                   ''Speed: '' @ format_2f mb_per_sec @ '' MB/s''))
         else (''ETA: Calculating...'', ''Speed: Calculating...''))"

subsection \<open>The loop of \<open>run\<close>\<close>

datatype step = Continue thread | Break thread | Raise thread

definition emit :: "event \<Rightarrow> thread \<Rightarrow> thread" where
  "emit e t = t\<lparr>emitted := emitted t @ [e]\<rparr>"

definition file_ext :: "string \<Rightarrow> string" where
  \<comment> \<open>lines 106 and 107\<close>
  "file_ext file = map upper_char (drop 1 (snd (splitext (basename file))))"

definition recognized :: "string \<Rightarrow> bool" where
  \<comment> \<open>the negation of the test at line 118\<close>
  "recognized ext \<longleftrightarrow> \<not> (ext \<notin> set SUPPORTED_FORMATS \<and> ext \<noteq> ''PSD'')"

definition skip_with_progress :: "nat \<Rightarrow> nat \<Rightarrow> nat \<Rightarrow> thread \<Rightarrow> thread" where
  \<comment> \<open>lines 96 to 99, 290 to 293 and 307 to 310\<close>
  "skip_with_progress i total_files n t =
     (let t1 = t\<lparr>failure_count := failure_count t + 1\<rparr>;
          t2 = t1\<lparr>processed_size := processed_size t1 + n\<rparr>
      in emit (Progress (progress_percent t2 i total_files) ''Skipping...'' '''') t2)"

definition on_failure :: "nat \<Rightarrow> nat \<Rightarrow> string \<Rightarrow> string \<Rightarrow> nat \<Rightarrow> obs \<Rightarrow> exn \<Rightarrow> thread \<Rightarrow> thread" where
  \<comment> \<open>the handlers, lines 287 to 316\<close>
  "on_failure i total_files file ext file_size ob e t =
     (case e of
        MemoryError \<Rightarrow>
          if skip_all_on_failure ob then skip_with_progress i total_files file_size t
          else (let t1 = emit (Error (''Not enough memory to process '' @ basename file
                                 @ ''. Try closing other applications.'') ''MEMORY'') t
                in t1\<lparr>failure_count := failure_count t1 + 1\<rparr>)
      | ImportError msg \<Rightarrow>
          (let t1 = emit (Error (''Missing library: '' @ msg) ''IMPORT_ERROR'') t
           in t1\<lparr>failure_count := failure_count t1 + 1\<rparr>)
      | OtherException msg \<Rightarrow>
          if skip_all_on_failure ob then skip_with_progress i total_files file_size t
          else (let t1 = emit (Error (''Error processing '' @ basename file @ '': '' @ msg) ext) t
                in t1\<lparr>failure_count := failure_count t1 + 1\<rparr>))"

definition on_success :: "nat \<Rightarrow> nat \<Rightarrow> nat \<Rightarrow> obs \<Rightarrow> thread \<Rightarrow> thread" where
  \<comment> \<open>line 281, then lines 318 to 354\<close>
  "on_success i total_files file_size ob t =
     (let t1 = t\<lparr>success_count := success_count t + 1\<rparr>;
          t2 = t1\<lparr>output_total_size := output_total_size t1
                     + (case saved_size ob of Some n \<Rightarrow> n | None \<Rightarrow> 0)\<rparr>;
          t3 = t2\<lparr>processed_size := processed_size t2 + file_size\<rparr>;
          progress = progress_percent t3 i total_files
      in case eta_speed t3 (clock ob) progress of
           (eta_text, speed_text) \<Rightarrow> emit (Progress progress eta_text speed_text) t3)"

definition iteration :: "world \<Rightarrow> nat \<Rightarrow> nat \<Rightarrow> string \<Rightarrow> obs \<Rightarrow> thread \<Rightarrow> step" where
  \<comment> \<open>one pass through the body of the \<open>for\<close>, lines 90 to 354\<close>
  "iteration w total_files i file ob t =
     (if \<not> is_running ob then Break t
      else if \<not> file_exists ob then
        (if skip_all ob then Continue (skip_with_progress i total_files 0 t)
         else (let t1 = emit (Error (''File not found: '' @ file) ''FILE_NOT_FOUND'') t
               in Continue (t1\<lparr>failure_count := failure_count t1 + 1\<rparr>)))
      else (let name = fst (splitext (basename file)); ext = file_ext file
            in if ext \<in> set (skip_errors ob) \<or> skip_all ob then
                 (case skipped_size ob of
                    None \<Rightarrow> Raise t
                  | Some n \<Rightarrow>
                      (let t1 = t\<lparr>processed_size := processed_size t + n\<rparr>;
                           t2 = emit (Progress (progress_percent t1 i total_files)
                                        ''Skipping...'' '''') t1
                       in Continue (t2\<lparr>failure_count := failure_count t2 + 1\<rparr>)))
               else if \<not> recognized ext then Continue t
               else (let file_size = (case input_size ob of Some n \<Rightarrow> n | None \<Rightarrow> 0);
                         output_path = path_join (output_dir t)
                                         (name @ ''.'' @ map lower_char (target_format t));
                         t1 = t\<lparr>last_output_path := output_path\<rparr>
                     in case process w t1 ext file_size ob of
                          Inl e \<Rightarrow> Continue (on_failure i total_files file ext file_size ob e t1)
                        | Inr d \<Rightarrow> Continue (on_success i total_files file_size ob t1))))"

datatype exit = Finished | Cancelled | Aborted | Uncaught

fun loop :: "world \<Rightarrow> nat \<Rightarrow> nat \<Rightarrow> string list \<Rightarrow> thread \<Rightarrow> exit \<times> thread" where
  "loop w total_files i [] t = (Finished, t)"
| "loop w total_files i (file # rest) t =
     (case iteration w total_files i file (observe w i) t of
        Continue t' \<Rightarrow> loop w total_files (Suc i) rest t'
      | Break t' \<Rightarrow> (Cancelled, t')
      | Raise t' \<Rightarrow> (Uncaught, t'))"

definition sort_key_of :: "world \<Rightarrow> string \<Rightarrow> nat" where
  \<comment> \<open>the \<open>key\<close> of line 85, where it returns\<close>
  "sort_key_of w f =
     (if path_exists w f then (case getsize w f of Some n \<Rightarrow> n | None \<Rightarrow> 0) else 0)"

definition size_lookup_fails :: "world \<Rightarrow> string list \<Rightarrow> bool" where
  \<comment> \<open>the \<open>key\<close> of line 85 raises for some file\<close>
  "size_lookup_fails w fs \<longleftrightarrow> (\<exists>f \<in> set fs. path_exists w f \<and> getsize w f = None)"

definition sort_files :: "world \<Rightarrow> string list \<Rightarrow> string list" where
  \<comment> \<open>lines 84 to 87: \<open>list.sort\<close> is stable, and leaves the list as it was when a key
      cannot be computed\<close>
  "sort_files w fs = (if size_lookup_fails w fs then fs else sort_key (sort_key_of w) fs)"

definition completion :: "thread \<Rightarrow> event" where
  "completion t =
     Completion (last_output_path t) (total_size t) (output_total_size t)
       (success_count t) (failure_count t)"

definition run :: "world \<Rightarrow> thread \<Rightarrow> exit \<times> thread" where
  \<comment> \<open>lines 70 to 359\<close>
  "run w t =
     (case (if dir_exists w then None else makedirs_error w) of
        Some msg \<Rightarrow>
          (Aborted, emit (Error (''Failed to create output directory: '' @ msg) ''DIR_ERROR'') t)
      | None \<Rightarrow>
          (let total_files = length (files t);
               t1 = t\<lparr>last_output_path := [], start_time := clock_start w, output_total_size := 0\<rparr>;
               t2 = t1\<lparr>files := sort_files w (files t1)\<rparr>
           in case loop w total_files 0 (files t2) t2 of
                (Uncaught, t3) \<Rightarrow> (Uncaught, t3)
              | (ex, t3) \<Rightarrow> (ex, emit (completion t3) t3)))"

subsection \<open>Observations of a run\<close>

text \<open>
  The iterations that a loop over \<open>fs\<close> starting at index \<open>i\<close> enters before it sees the
  cancellation flag: each file with what its iteration observed.
\<close>

fun reached :: "world \<Rightarrow> nat \<Rightarrow> string list \<Rightarrow> (string \<times> obs) list" where
  "reached w i [] = []"
| "reached w i (f # fs) =
     (if is_running (observe w i) then (f, observe w i) # reached w (Suc i) fs else [])"

text \<open>The thread after each iteration that ran to its end, in order.\<close>

fun history :: "world \<Rightarrow> nat \<Rightarrow> nat \<Rightarrow> string list \<Rightarrow> thread \<Rightarrow> thread list" where
  "history w total_files i [] t = []"
| "history w total_files i (f # fs) t =
     (case iteration w total_files i f (observe w i) t of
        Continue t' \<Rightarrow> t' # history w total_files (Suc i) fs t'
      | Break t' \<Rightarrow> []
      | Raise t' \<Rightarrow> [])"

definition is_progress :: "event \<Rightarrow> bool" where
  "is_progress e = (case e of Progress p eta speed \<Rightarrow> True | _ \<Rightarrow> False)"

definition is_completion :: "event \<Rightarrow> bool" where
  "is_completion e = (case e of Completion p a b c d \<Rightarrow> True | _ \<Rightarrow> False)"

definition thread_of :: "step \<Rightarrow> thread" where
  "thread_of s = (case s of Continue t \<Rightarrow> t | Break t \<Rightarrow> t | Raise t \<Rightarrow> t)"

definition is_raise :: "step \<Rightarrow> bool" where
  "is_raise s = (case s of Raise t \<Rightarrow> True | _ \<Rightarrow> False)"

definition is_break :: "step \<Rightarrow> bool" where
  "is_break s = (case s of Break t \<Rightarrow> True | _ \<Rightarrow> False)"

definition is_import_error :: "exn \<Rightarrow> bool" where
  "is_import_error e = (case e of ImportError msg \<Rightarrow> True | _ \<Rightarrow> False)"

text \<open>
  A visit that the code counts: the file is missing, or it is skipped by the skip set or
  the skip-all flag, or its extension is recognized.
\<close>

definition counted :: "string \<times> obs \<Rightarrow> bool" where
  "counted v = (case v of (f, ob) \<Rightarrow>
     \<not> file_exists ob \<or> file_ext f \<in> set (skip_errors ob) \<or> skip_all ob
     \<or> recognized (file_ext f))"

text \<open>A visit of a file with a recognized extension.\<close>

definition recognized_visit :: "string \<times> obs \<Rightarrow> bool" where
  "recognized_visit v = recognized (file_ext (fst v))"

text \<open>
  The resolution rule for raster images in the words of the specification: unchanged
  when both dimensions reach 3840 by 2160, otherwise both scaled by
  \<open>max(1.0, 3840/W, 2160/H)\<close> and truncated.
\<close>

definition spec_raster_dims :: "int \<times> int \<Rightarrow> int \<times> int" where
  "spec_raster_dims wh =
     (case wh of (W, H) \<Rightarrow>
        if 3840 \<le> W \<and> 2160 \<le> H then (W, H)
        else (let s = max 1 (max (int_truediv 3840 W) (int_truediv 2160 H))
              in (py_int (float_mul (float_of_int W) s), py_int (float_mul (float_of_int H) s))))"

text \<open>
  The ETA text for \<open>r\<close> whole remaining seconds, in the words of the specification with
  the label that the code puts in front.
\<close>

definition spec_eta_text :: "int \<Rightarrow> string" where
  "spec_eta_text r =
     ''ETA: '' @ (if r < 60 then str_int r @ ''s''
                  else str_int (r div 60) @ ''m '' @ str_int (r mod 60) @ ''s'')"

subsection \<open>Sample worlds\<close>

definition plain_obs :: obs where
  "plain_obs =
     \<lparr>is_running = True, file_exists = True, skip_all = False, skip_errors = [],
      skipped_size = Some 10, input_size = Some 10, opened = Inr (100, 50), saved = None,
      skip_all_on_failure = False, saved_size = Some 7, clock = 5\<rparr>"

definition plain_world :: "(nat \<Rightarrow> obs) \<Rightarrow> world" where
  "plain_world f =
     \<lparr>dir_exists = True, makedirs_error = None, clock_start = 3,
      path_exists = (\<lambda>p. True), getsize = (\<lambda>p. Some (length p)), pdf_converter = False,
      observe = f\<rparr>"

definition denied_world :: world where
  "denied_world = (plain_world (\<lambda>i. plain_obs))\<lparr>dir_exists := False, makedirs_error := Some ''denied''\<rparr>"

definition gone_world :: world where
  "gone_world = plain_world (\<lambda>i. plain_obs\<lparr>file_exists := False\<rparr>)"

definition skipall_world :: world where
  "skipall_world = plain_world (\<lambda>i. plain_obs\<lparr>skip_all := True\<rparr>)"

definition txt_job :: thread where
  "txt_job = init (\<lambda>p. Some 10) [''notes.txt''] ''out'' ''PNG'' ''4K''"


definition png_job :: thread where
  "png_job = init (\<lambda>p. Some 10) [''a.png''] ''out'' ''JPEG'' ''4K''"

definition eta_job :: thread where
  "eta_job = png_job\<lparr>start_time := 3, processed_size := 10\<rparr>"

definition late_skip_world :: world where
  "late_skip_world = plain_world (\<lambda>i. plain_obs\<lparr>skip_all_on_failure := True\<rparr>)"

definition pdf_job :: thread where
  "pdf_job = init (\<lambda>p. Some 10) [''doc.pdf''] ''out'' ''PNG'' ''4K''"

definition mixed_world :: world where
  "mixed_world =
     plain_world (\<lambda>i. if i = 0 then plain_obs\<lparr>file_exists := False\<rparr>
                       else if i = 1 then plain_obs\<lparr>opened := Inl MemoryError\<rparr>
                       else if i = 2 then plain_obs
                       else plain_obs\<lparr>is_running := False\<rparr>)"

definition mixed_job :: thread where
  "mixed_job =
     init (\<lambda>p. Some 10) [''a.bmp'', ''bb.gif'', ''notes.txt'', ''zzzzzz.png''] ''out'' ''PNG'' ''4K''"

definition skipping_world :: world where
  "skipping_world =
     plain_world (\<lambda>i. if i = 0 then plain_obs\<lparr>skip_all := True\<rparr>
                       else if i = 1 then plain_obs\<lparr>file_exists := False\<rparr>
                       else plain_obs\<lparr>is_running := False\<rparr>)"

definition vanishing_world :: world where
  "vanishing_world =
     \<lparr>dir_exists = True, makedirs_error = None, clock_start = 3,
      path_exists = (\<lambda>p. p \<noteq> ''gone.png''),
      getsize = (\<lambda>p. if p = ''gone.png'' then None else Some (length p)),
      pdf_converter = False,
      observe = (\<lambda>i. plain_obs\<lparr>file_exists := False\<rparr>)\<rparr>"

definition sort_job :: thread where
  "sort_job =
     init (\<lambda>p. None) [''bigbig.png'', ''gone.png'', ''sm.png'', ''zz.png''] ''out'' ''PNG'' ''4K''"

definition locked_world :: world where
  "locked_world =
     (plain_world (\<lambda>i. plain_obs))\<lparr>getsize := (\<lambda>p. if p = ''bb.png'' then None else Some (length p))\<rparr>"

section \<open>Properties of the float model\<close>

subsection \<open>Rounding\<close>

lemma round_half_even_cases:
  "round_half_even x = \<lfloor>x\<rfloor> \<or> round_half_even x = \<lfloor>x\<rfloor> + 1"
  by (simp add: round_half_even_def Let_def)


lemma round_half_even_of_int [simp]: "round_half_even (of_int n) = n"
  by (simp add: round_half_even_def)

lemma round_half_even_mono:
  assumes "x \<le> y"
  shows "round_half_even x \<le> round_half_even y"
proof (cases "\<lfloor>x\<rfloor> = \<lfloor>y\<rfloor>")
  case True
  then show ?thesis
    using assms by (auto simp add: round_half_even_def Let_def)
next
  case False
  then have "\<lfloor>x\<rfloor> < \<lfloor>y\<rfloor>"
    using assms floor_mono [of x y] by linarith
  then have "\<lfloor>x\<rfloor> + 1 \<le> \<lfloor>y\<rfloor>" by simp
  moreover have "round_half_even x \<le> \<lfloor>x\<rfloor> + 1"
    using round_half_even_cases [of x] by auto
  moreover have "\<lfloor>y\<rfloor> \<le> round_half_even y"
    using round_half_even_cases [of y] by auto
  ultimately show ?thesis by linarith
qed

subsection \<open>The exponent\<close>

lemma ilog2_bounds:
  assumes "0 < x"
  shows "2 powi (ilog2 x) \<le> x" and "x < 2 powi (ilog2 x + 1)"
proof -
  obtain p q where pq: "quotient_of x = (p, q)" by (cases "quotient_of x")
  have q: "0 < q" using pq by (rule quotient_of_denom_pos)
  have x: "x = of_int p / of_int q" using pq by (rule quotient_of_div)
  have p: "0 < p"
    using assms q unfolding x by (simp add: zero_less_divide_iff)
  define a where "a = bitlen p"
  define b where "b = bitlen q"
  have a1: "1 \<le> a" using p by (simp add: a_def bitlen_alt_def)
  have b1: "1 \<le> b" using q by (simp add: b_def bitlen_alt_def)
  have pb: "2 ^ nat (a - 1) \<le> p" "p < 2 ^ nat a"
    using bitlen_bounds [OF p] by (simp_all add: a_def)
  have qb: "2 ^ nat (b - 1) \<le> q" "q < 2 ^ nat b"
    using bitlen_bounds [OF q] by (simp_all add: b_def)
  have pr: "(2::rat) powi (a - 1) \<le> of_int p" "of_int p < (2::rat) powi a"
  proof -
    have "(2::rat) ^ nat (a - 1) \<le> of_int p"
      using pb(1) by (metis of_int_le_iff of_int_numeral of_int_power)
    then show "(2::rat) powi (a - 1) \<le> of_int p"
      using a1 by (simp add: power_int_def)
    have "of_int p < (2::rat) ^ nat a"
      using pb(2) by (metis of_int_less_iff of_int_numeral of_int_power)
    then show "of_int p < (2::rat) powi a"
      using a1 by (simp add: power_int_def)
  qed
  have qr: "(2::rat) powi (b - 1) \<le> of_int q" "of_int q < (2::rat) powi b"
  proof -
    have "(2::rat) ^ nat (b - 1) \<le> of_int q"
      using qb(1) by (metis of_int_le_iff of_int_numeral of_int_power)
    then show "(2::rat) powi (b - 1) \<le> of_int q"
      using b1 by (simp add: power_int_def)
    have "of_int q < (2::rat) ^ nat b"
      using qb(2) by (metis of_int_less_iff of_int_numeral of_int_power)
    then show "of_int q < (2::rat) powi b"
      using b1 by (simp add: power_int_def)
  qed
  have qpos: "(0::rat) < of_int q" using q by simp
  have upper: "x < 2 powi (a - b + 1)"
  proof -
    have "x * of_int q = of_int p" using qpos by (simp add: x)
    also have "\<dots> < 2 powi a" by (rule pr(2))
    also have "\<dots> = 2 powi (a - b + 1) * 2 powi (b - 1)"
      by (simp add: power_int_add [symmetric])
    also have "\<dots> \<le> 2 powi (a - b + 1) * of_int q"
      using qr(1) by (simp add: mult_left_mono)
    finally show ?thesis using qpos by simp
  qed
  have lower: "2 powi (a - b - 1) \<le> x"
  proof -
    have "(2::rat) powi (a - b - 1) * of_int q \<le> 2 powi (a - b - 1) * 2 powi b"
      using qr(2) by (simp add: mult_left_mono)
    also have "\<dots> = 2 powi (a - 1)"
      by (simp add: power_int_add [symmetric])
    also have "\<dots> \<le> of_int p" by (rule pr(1))
    also have "\<dots> = x * of_int q" using qpos by (simp add: x)
    finally show ?thesis using qpos by simp
  qed
  have il: "ilog2 x = (if 2 powi (a - b) \<le> x then a - b else a - b - 1)"
    by (simp add: ilog2_def pq a_def b_def Let_def)
  show "2 powi (ilog2 x) \<le> x"
    using lower by (simp add: il)
  show "x < 2 powi (ilog2 x + 1)"
    using upper by (auto simp add: il not_le)
qed

lemma powi_less_imp_less:
  assumes "(2::rat) powi a < 2 powi b"
  shows "a < b"
proof (rule ccontr)
  assume "\<not> a < b"
  then have "b \<le> a" by simp
  then have "(2::rat) powi b \<le> 2 powi a"
    by (rule power_int_increasing) simp
  then show False using assms by simp
qed

lemma ilog2_unique:
  assumes "0 < x" and "2 powi e \<le> x" and "x < 2 powi (e + 1)"
  shows "ilog2 x = e"
proof -
  have "(2::rat) powi (ilog2 x) < 2 powi (e + 1)"
    using ilog2_bounds(1) [OF assms(1)] assms(3) by linarith
  then have a: "ilog2 x < e + 1"
    by (rule powi_less_imp_less)
  have "(2::rat) powi e < 2 powi (ilog2 x + 1)"
    using ilog2_bounds(2) [OF assms(1)] assms(2) by linarith
  then have b: "e < ilog2 x + 1"
    by (rule powi_less_imp_less)
  from a b show ?thesis by linarith
qed

subsection \<open>Rounding to a double\<close>

lemma powi_add_nat: "(2::rat) powi (e + int k) = 2 powi e * 2 ^ k"
  by (simp add: power_int_add)

lemma powi_split_52: "(2::rat) powi e = 2 powi (e - 52) * 2 ^ 52"
proof -
  have eq: "e - 52 + int 52 = e" by simp
  show ?thesis using powi_add_nat [of "e - 52" 52] unfolding eq .
qed

lemma powi_split_53: "(2::rat) powi (e + 1) = 2 powi (e - 52) * 2 ^ 53"
proof -
  have eq: "e - 52 + int 53 = e + 1" by simp
  show ?thesis using powi_add_nat [of "e - 52" 53] unfolding eq .
qed

lemma py_float_pos:
  assumes "0 < x"
  shows "py_float x
    = of_int (round_half_even (x / 2 powi (ilog2 x - 52))) * 2 powi (ilog2 x - 52)"
  using assms by (simp add: py_float_def Let_def)


lemma py_float_range:
  assumes "0 < x"
  shows "2 powi (ilog2 x) \<le> py_float x" and "py_float x \<le> 2 powi (ilog2 x + 1)"
proof -
  define g :: rat where "g = 2 powi (ilog2 x - 52)"
  have g: "0 < g" by (simp add: g_def)
  have lo: "(2::rat) powi (ilog2 x) = of_int (2 ^ 52) * g"
    unfolding powi_split_52 [of "ilog2 x"] g_def by simp
  have hi: "(2::rat) powi (ilog2 x + 1) = of_int (2 ^ 53) * g"
    unfolding powi_split_53 [of "ilog2 x"] g_def by simp
  have "of_int (2 ^ 52) \<le> x / g"
    using ilog2_bounds(1) [OF assms] g unfolding lo by (simp add: field_simps)
  then have "round_half_even (of_int (2 ^ 52)) \<le> round_half_even (x / g)"
    by (rule round_half_even_mono)
  then have a: "(of_int (2 ^ 52) :: rat) \<le> of_int (round_half_even (x / g))"
    unfolding round_half_even_of_int by (simp only: of_int_le_iff)
  have "x / g \<le> of_int (2 ^ 53)"
    using ilog2_bounds(2) [OF assms] g unfolding hi by (simp add: field_simps)
  then have "round_half_even (x / g) \<le> round_half_even (of_int (2 ^ 53))"
    by (rule round_half_even_mono)
  then have b: "(of_int (round_half_even (x / g)) :: rat) \<le> of_int (2 ^ 53)"
    unfolding round_half_even_of_int by (simp only: of_int_le_iff)
  have pf: "py_float x = of_int (round_half_even (x / g)) * g"
    by (simp add: py_float_pos [OF assms] g_def)
  show "2 powi (ilog2 x) \<le> py_float x"
    unfolding lo pf using a g by (simp only: mult_le_cancel_right_pos)
  show "py_float x \<le> 2 powi (ilog2 x + 1)"
    unfolding hi pf using b g by (simp only: mult_le_cancel_right_pos)
qed


lemma py_float_mono:
  assumes "0 < x" and "x \<le> y"
  shows "py_float x \<le> py_float y"
proof -
  have y: "0 < y" using assms by linarith
  have "(2::rat) powi (ilog2 x) < 2 powi (ilog2 y + 1)"
    using ilog2_bounds(1) [OF assms(1)] ilog2_bounds(2) [OF y] assms(2) by linarith
  then have le: "ilog2 x \<le> ilog2 y"
    using powi_less_imp_less by fastforce
  show ?thesis
  proof (cases "ilog2 x = ilog2 y")
    case True
    define g :: rat where "g = 2 powi (ilog2 y - 52)"
    have g: "0 < g" by (simp add: g_def)
    have "x / g \<le> y / g" using assms(2) g by (simp add: divide_right_mono)
    then have "round_half_even (x / g) \<le> round_half_even (y / g)"
      by (rule round_half_even_mono)
    then have "(of_int (round_half_even (x / g)) :: rat) * g \<le> of_int (round_half_even (y / g)) * g"
      using g by (simp add: mult_right_mono)
    then show ?thesis
      by (simp add: py_float_pos [OF assms(1)] py_float_pos [OF y] True g_def)
  next
    case False
    then have "ilog2 x + 1 \<le> ilog2 y" using le by simp
    then have "(2::rat) powi (ilog2 x + 1) \<le> 2 powi (ilog2 y)"
      by (rule power_int_increasing) simp
    then show ?thesis
      using py_float_range(2) [OF assms(1)] py_float_range(1) [OF y] by linarith
  qed
qed

lemma py_float_of_int:
  assumes "0 < n" and "n < 2 ^ 53"
  shows "py_float (of_int n) = of_int n"
proof -
  have pos: "(0::rat) < of_int n" using assms(1) by simp
  have "(of_int n :: rat) < of_int (2 ^ 53)"
    using assms(2) by (simp only: of_int_less_iff)
  then have "(of_int n :: rat) < 2 powi 53" by simp
  then have "(2::rat) powi (ilog2 (of_int n)) < 2 powi 53"
    using ilog2_bounds(1) [OF pos] by linarith
  then have "ilog2 (of_int n) < 53" by (rule powi_less_imp_less)
  then have "0 \<le> 52 - ilog2 (rat_of_int n)" by simp
  then obtain k :: nat where "52 - ilog2 (rat_of_int n) = int k"
    using zero_le_imp_eq_int by blast
  then have k: "ilog2 (rat_of_int n) - 52 = - int k" by simp
  have g: "(2::rat) powi (ilog2 (of_int n) - 52) = inverse (2 ^ k)"
    unfolding k by (simp add: power_int_minus)
  have "(of_int n :: rat) / inverse (2 ^ k) = of_int (n * 2 ^ k)"
    by (simp add: field_simps)
  then have "round_half_even (of_int n / inverse (2 ^ k)) = n * 2 ^ k"
    by (simp only: round_half_even_of_int)
  then show ?thesis
    by (simp add: py_float_pos [OF pos] g)
qed

lemma py_float_one [simp]: "py_float 1 = 1"
  using py_float_of_int [of 1] by simp

section \<open>Properties of the run\<close>

subsection \<open>One iteration, the loop, the run\<close>

lemma process_last_output_path [simp]:
  "process w (t\<lparr>last_output_path := p\<rparr>) ext n ob = process w t ext n ob"
  by (simp add: process_def Let_def split: sum.splits)


lemma skip_with_progress_fields:
  "processed_size (skip_with_progress i n k t) = processed_size t + k"
  "failure_count (skip_with_progress i n k t) = failure_count t + 1"
  "success_count (skip_with_progress i n k t) = success_count t"
  "files (skip_with_progress i n k t) = files t"
  "total_size (skip_with_progress i n k t) = total_size t"
  "emitted (skip_with_progress i n k t)
     = emitted t @ [Progress (progress_percent (skip_with_progress i n k t) i n) ''Skipping...'' '''']"
  by (simp_all add: skip_with_progress_def emit_def Let_def progress_percent_def)

lemma on_failure_fields:
  "processed_size (on_failure i n f ext k ob e t)
     = processed_size t + (if skip_all_on_failure ob \<and> \<not> is_import_error e then k else 0)"
  "failure_count (on_failure i n f ext k ob e t) = failure_count t + 1"
  "success_count (on_failure i n f ext k ob e t) = success_count t"
  "files (on_failure i n f ext k ob e t) = files t"
  "total_size (on_failure i n f ext k ob e t) = total_size t"
  by (cases e; simp add: on_failure_def skip_with_progress_fields emit_def is_import_error_def)+

lemma on_success_fields:
  "processed_size (on_success i n k ob t) = processed_size t + k"
  "failure_count (on_success i n k ob t) = failure_count t"
  "success_count (on_success i n k ob t) = success_count t + 1"
  "files (on_success i n k ob t) = files t"
  "total_size (on_success i n k ob t) = total_size t"
  by (simp_all add: on_success_def emit_def Let_def split: prod.splits)

lemmas step_fields = skip_with_progress_fields(1-5) on_failure_fields on_success_fields

lemma iteration_processed_size:
  "processed_size (thread_of (iteration w n i f ob t))
     \<in> {processed_size t,
        processed_size t + (case skipped_size ob of Some k \<Rightarrow> k | None \<Rightarrow> 0),
        processed_size t + (case input_size ob of Some k \<Rightarrow> k | None \<Rightarrow> 0)}"
  by (simp add: iteration_def Let_def emit_def step_fields thread_of_def
      split: option.splits sum.splits)

lemma iteration_missing_file:
  "is_running ob \<Longrightarrow> \<not> file_exists ob \<Longrightarrow>
   processed_size (thread_of (iteration w n i f ob t)) = processed_size t"
  by (simp add: iteration_def Let_def emit_def step_fields thread_of_def)

lemma iteration_processed_mono:
  "processed_size t \<le> processed_size (thread_of (iteration w n i f ob t))"
  using iteration_processed_size [of w n i f ob t] by auto

lemma iteration_break_iff: "is_break (iteration w n i f ob t) \<longleftrightarrow> \<not> is_running ob"
  by (simp add: iteration_def is_break_def Let_def split: option.splits sum.splits)

lemma iteration_counts:
  assumes "is_running ob" and "\<not> is_raise (iteration w n i f ob t)"
  shows "success_count (thread_of (iteration w n i f ob t))
           + failure_count (thread_of (iteration w n i f ob t))
         = success_count t + failure_count t + (if counted (f, ob) then 1 else 0)"
  using assms
  by (auto simp add: iteration_def Let_def emit_def step_fields thread_of_def counted_def
      is_raise_def split: option.splits sum.splits)

lemma iteration_files: "files (thread_of (iteration w n i f ob t)) = files t"
  by (simp add: iteration_def Let_def emit_def step_fields thread_of_def
      split: option.splits sum.splits)

lemma history_sorted:
  "sorted (map processed_size (t # history w n i fs t))"
proof (induction fs arbitrary: i t)
  case Nil
  show ?case by simp
next
  case (Cons f fs)
  show ?case
  proof (cases "iteration w n i f (observe w i) t")
    case (Continue t')
    have le: "processed_size t \<le> processed_size t'"
      using iteration_processed_mono [of t w n i f "observe w i"] Continue
      by (simp add: thread_of_def)
    have s: "sorted (map processed_size (t' # history w n (Suc i) fs t'))"
      by (rule Cons.IH)
    have "\<forall>x \<in> set (map processed_size (t' # history w n (Suc i) fs t')). processed_size t' \<le> x"
      using s by (simp del: history.simps)
    then have "\<forall>x \<in> set (map processed_size (t' # history w n (Suc i) fs t')). processed_size t \<le> x"
      using le by (meson order_trans)
    then show ?thesis using s Continue by simp
  qed simp_all
qed

lemma loop_processed_mono:
  "processed_size t \<le> processed_size (snd (loop w n i fs t))"
proof (induction fs arbitrary: i t)
  case Nil
  show ?case by simp
next
  case (Cons f fs)
  show ?case
  proof (cases "iteration w n i f (observe w i) t")
    case (Continue t')
    have "processed_size t \<le> processed_size t'"
      using iteration_processed_mono [of t w n i f "observe w i"] Continue
      by (simp add: thread_of_def)
    also have "\<dots> \<le> processed_size (snd (loop w n (Suc i) fs t'))" by (rule Cons.IH)
    finally show ?thesis using Continue by simp
  next
    case (Break t')
    then show ?thesis
      using iteration_processed_mono [of t w n i f "observe w i"] by (simp add: thread_of_def)
  next
    case (Raise t')
    then show ?thesis
      using iteration_processed_mono [of t w n i f "observe w i"] by (simp add: thread_of_def)
  qed
qed

lemma run_processed_mono:
  "processed_size t \<le> processed_size (snd (run w t))"
proof (cases "if dir_exists w then None else makedirs_error w")
  case (Some msg)
  then show ?thesis by (simp add: run_def emit_def)
next
  case None
  let ?t2 = "t\<lparr>last_output_path := [], start_time := clock_start w, output_total_size := 0,
                files := sort_files w (files t)\<rparr>"
  have "processed_size t = processed_size ?t2" by simp
  also have "\<dots> \<le> processed_size (snd (loop w (length (files t)) 0 (sort_files w (files t)) ?t2))"
    by (rule loop_processed_mono)
  finally show ?thesis
    using None
    by (auto simp add: run_def Let_def emit_def split: prod.splits exit.splits)
qed

lemma loop_counts:
  "fst (loop w n i fs t) \<noteq> Uncaught \<Longrightarrow>
   success_count (snd (loop w n i fs t)) + failure_count (snd (loop w n i fs t))
     = success_count t + failure_count t + length (filter counted (reached w i fs))"
proof (induction fs arbitrary: i t)
  case Nil
  show ?case by simp
next
  case (Cons f fs)
  show ?case
  proof (cases "iteration w n i f (observe w i) t")
    case (Continue t')
    have run: "is_running (observe w i)"
      using iteration_break_iff [of w n i f "observe w i" t] Continue by (simp add: is_break_def)
    have nr: "\<not> is_raise (iteration w n i f (observe w i) t)"
      using Continue by (simp add: is_raise_def)
    have step: "success_count t' + failure_count t'
        = success_count t + failure_count t + (if counted (f, observe w i) then 1 else 0)"
      using iteration_counts [OF run nr] Continue by (simp add: thread_of_def)
    have "fst (loop w n (Suc i) fs t') \<noteq> Uncaught"
      using Cons.prems Continue by simp
    from Cons.IH [OF this] step run Continue show ?thesis by simp
  next
    case (Break t')
    have "\<not> is_running (observe w i)"
      using iteration_break_iff [of w n i f "observe w i" t] Break by (simp add: is_break_def)
    moreover have "t' = t"
      using Break by (simp add: iteration_def Let_def split: if_splits option.splits sum.splits)
    ultimately show ?thesis using Break by simp
  next
    case (Raise t')
    then show ?thesis using Cons.prems by simp
  qed
qed

lemma loop_files: "files (snd (loop w n i fs t)) = files t"
proof (induction fs arbitrary: i t)
  case Nil
  show ?case by simp
next
  case (Cons f fs)
  show ?case
    using iteration_files [of w n i f "observe w i" t] Cons.IH
    by (cases "iteration w n i f (observe w i) t") (simp_all add: thread_of_def)
qed

lemma run_unfold:
  assumes "(if dir_exists w then None else makedirs_error w) = None"
  shows "fst (run w t) = fst (loop w (length (files t)) 0 (sort_files w (files t))
            (t\<lparr>last_output_path := [], start_time := clock_start w, output_total_size := 0,
               files := sort_files w (files t)\<rparr>))"
    and "snd (run w t) = (let r = loop w (length (files t)) 0 (sort_files w (files t))
            (t\<lparr>last_output_path := [], start_time := clock_start w, output_total_size := 0,
               files := sort_files w (files t)\<rparr>)
          in if fst r = Uncaught then snd r else emit (completion (snd r)) (snd r))"
  using assms by (auto simp add: run_def Let_def split: prod.splits exit.splits)

lemma loop_not_aborted: "fst (loop w n i fs t) \<noteq> Aborted"
proof (induction fs arbitrary: i t)
  case Nil
  show ?case by simp
next
  case (Cons f fs)
  show ?case
    using Cons.IH by (cases "iteration w n i f (observe w i) t") simp_all
qed

lemma run_aborted_iff:
  "fst (run w t) = Aborted \<longleftrightarrow> (if dir_exists w then None else makedirs_error w) \<noteq> None"
proof (cases "if dir_exists w then None else makedirs_error w")
  case None
  then show ?thesis
    using run_unfold(1) [OF None, of t] loop_not_aborted by simp
next
  case (Some msg)
  then show ?thesis by (simp add: run_def)
qed

subsection \<open>Failure to create the output directory\<close>

text \<open>
  C10.  If the output directory does not exist and creating it raises, \<open>run\<close> emits one
  error signal of kind \<open>DIR_ERROR\<close> and returns: no progress signal, no completion
  signal, and every counter and accumulator as it was.
\<close>

theorem run_dir_error:
  assumes "\<not> dir_exists w" and "makedirs_error w = Some msg"
  shows "fst (run w t) = Aborted
       \<and> emitted (snd (run w t))
           = emitted t @ [Error (''Failed to create output directory: '' @ msg) ''DIR_ERROR'']
       \<and> filter is_progress (emitted (snd (run w t))) = filter is_progress (emitted t)
       \<and> filter is_completion (emitted (snd (run w t))) = filter is_completion (emitted t)
       \<and> success_count (snd (run w t)) = success_count t
       \<and> failure_count (snd (run w t)) = failure_count t
       \<and> processed_size (snd (run w t)) = processed_size t
       \<and> output_total_size (snd (run w t)) = output_total_size t
       \<and> files (snd (run w t)) = files t"
  using assms by (simp add: run_def emit_def is_progress_def is_completion_def)

theorem run_dir_error_witness:
  "\<not> dir_exists denied_world \<and> makedirs_error denied_world = Some ''denied''
   \<and> fst (run denied_world (init (\<lambda>p. Some 10) [''a.png''] ''out'' ''PNG'' ''4K'')) = Aborted
   \<and> emitted (snd (run denied_world (init (\<lambda>p. Some 10) [''a.png''] ''out'' ''PNG'' ''4K'')))
       = [Error ''Failed to create output directory: denied'' ''DIR_ERROR'']"
proof -
  have a: "\<not> dir_exists denied_world"
    by (simp add: denied_world_def plain_world_def)
  have b: "makedirs_error denied_world = Some ''denied''"
    by (simp add: denied_world_def plain_world_def)
  show ?thesis
    using run_dir_error [OF a b, of "init (\<lambda>p. Some 10) [''a.png''] ''out'' ''PNG'' ''4K''"] a b
    by (simp add: init_def)
qed

subsection \<open>A job of one missing file\<close>

lemma sort_files_single: "sort_files w [f] = [f]"
  by (simp add: sort_files_def)

text \<open>
  C6.  A fresh job whose only input path does not exist, reached with the skip-all flag
  off: the run emits one error signal, of kind \<open>FILE_NOT_FOUND\<close>, then the completion
  signal, and ends with one failure, no success and no byte processed.
\<close>

theorem run_one_missing_file:
  assumes "dir_exists w \<or> makedirs_error w = None"
    and "is_running (observe w 0)"
    and "\<not> file_exists (observe w 0)"
    and "\<not> skip_all (observe w 0)"
  shows "fst (run w (init gs [f] out fmt res)) = Finished
       \<and> emitted (snd (run w (init gs [f] out fmt res)))
           = [Error (''File not found: '' @ f) ''FILE_NOT_FOUND'',
              Completion [] (calculate_total_size gs [f]) 0 0 1]
       \<and> failure_count (snd (run w (init gs [f] out fmt res))) = 1
       \<and> success_count (snd (run w (init gs [f] out fmt res))) = 0
       \<and> processed_size (snd (run w (init gs [f] out fmt res))) = 0"
proof -
  have none: "(if dir_exists w then None else makedirs_error w) = None"
    using assms(1) by auto
  show ?thesis
    using assms(2-4)
    by (simp add: run_def none init_def sort_files_single iteration_def emit_def completion_def)
qed

theorem run_one_missing_file_witness:
  "(dir_exists gone_world \<or> makedirs_error gone_world = None)
   \<and> is_running (observe gone_world 0)
   \<and> \<not> file_exists (observe gone_world 0)
   \<and> \<not> skip_all (observe gone_world 0)
   \<and> emitted (snd (run gone_world (init (\<lambda>p. None) [''/in/gone.png''] ''out'' ''PNG'' ''4K'')))
       = [Error ''File not found: /in/gone.png'' ''FILE_NOT_FOUND'', Completion [] 0 0 0 1]
   \<and> failure_count (snd (run gone_world (init (\<lambda>p. None) [''/in/gone.png''] ''out'' ''PNG'' ''4K''))) = 1"
proof -
  have a: "dir_exists gone_world \<or> makedirs_error gone_world = None"
    by (simp add: gone_world_def plain_world_def)
  have b: "is_running (observe gone_world 0)"
    by (simp add: gone_world_def plain_world_def plain_obs_def)
  have c: "\<not> file_exists (observe gone_world 0)"
    by (simp add: gone_world_def plain_world_def plain_obs_def)
  have d: "\<not> skip_all (observe gone_world 0)"
    by (simp add: gone_world_def plain_world_def plain_obs_def)
  show ?thesis
    using run_one_missing_file [OF a b c d, of "\<lambda>p. None" "''/in/gone.png''" "''out''" "''PNG''" "''4K''"]
      a b c d
    by simp
qed

subsection \<open>What the counters count\<close>

text \<open>
  C1 (as stated).  The claim says that the two counters together count the reached files
  with a recognized extension, and that an unrecognized file never moves a counter.  A job
  of the single existing file \<open>notes.txt\<close>, run with the skip-all flag set, ends with one
  failure although no reached file has a recognized extension: the skip test of line 110
  comes before the extension test of line 118.
\<close>

theorem unrecognized_file_counted_counterexample:
  "fst (run skipall_world txt_job) = Finished
   \<and> \<not> recognized (file_ext ''notes.txt'')
   \<and> success_count txt_job + failure_count txt_job = 0
   \<and> success_count (snd (run skipall_world txt_job))
       + failure_count (snd (run skipall_world txt_job)) = 1
   \<and> length (filter recognized_visit
         (reached skipall_world 0 (sort_files skipall_world (files txt_job)))) = 0"
  by code_simp

text \<open>
  C1 (amended).  When the run completes or is cancelled, the two counters have grown
  together by the number of reached files that are missing, or skipped by the skip set
  or the skip-all flag, or of a recognized extension.  A file with an unrecognized
  extension that exists, is not in the skip set and is reached with the skip-all flag off
  leaves the whole thread unchanged.
\<close>

theorem counters_count_reached_files:
  "(fst (run w t) \<in> {Finished, Cancelled} \<longrightarrow>
      success_count (snd (run w t)) + failure_count (snd (run w t))
        = success_count t + failure_count t
          + length (filter counted (reached w 0 (sort_files w (files t)))))
   \<and> (is_running ob \<and> file_exists ob \<and> file_ext f \<notin> set (skip_errors ob) \<and> \<not> skip_all ob
        \<and> \<not> recognized (file_ext f) \<longrightarrow> iteration w n i f ob t = Continue t)"
proof (intro conjI impI)
  assume fin: "fst (run w t) \<in> {Finished, Cancelled}"
  then have "fst (run w t) \<noteq> Aborted" by auto
  then have none: "(if dir_exists w then None else makedirs_error w) = None"
    using run_aborted_iff [of w t] by simp
  let ?t2 = "t\<lparr>last_output_path := [], start_time := clock_start w, output_total_size := 0,
                files := sort_files w (files t)\<rparr>"
  let ?r = "loop w (length (files t)) 0 (sort_files w (files t)) ?t2"
  have nu: "fst ?r \<noteq> Uncaught"
    using fin run_unfold(1) [OF none, of t] by auto
  have "success_count (snd ?r) + failure_count (snd ?r)
      = success_count ?t2 + failure_count ?t2
        + length (filter counted (reached w 0 (sort_files w (files t))))"
    by (rule loop_counts [OF nu])
  then show "success_count (snd (run w t)) + failure_count (snd (run w t))
        = success_count t + failure_count t
          + length (filter counted (reached w 0 (sort_files w (files t))))"
    using run_unfold(2) [OF none, of t] nu by (simp add: Let_def emit_def)
next
  assume "is_running ob \<and> file_exists ob \<and> file_ext f \<notin> set (skip_errors ob) \<and> \<not> skip_all ob
        \<and> \<not> recognized (file_ext f)"
  then show "iteration w n i f ob t = Continue t"
    by (simp add: iteration_def Let_def)
qed

theorem counters_count_reached_files_witness:
  "fst (run mixed_world mixed_job) \<in> {Finished, Cancelled}
   \<and> success_count (snd (run mixed_world mixed_job))
       + failure_count (snd (run mixed_world mixed_job)) = 2
   \<and> length (reached mixed_world 0 (sort_files mixed_world (files mixed_job))) = 3
   \<and> iteration mixed_world 4 2 ''notes.txt'' plain_obs mixed_job = Continue mixed_job"
proof -
  have a: "fst (run mixed_world mixed_job) \<in> {Finished, Cancelled}"
    by code_simp
  have b: "is_running plain_obs \<and> file_exists plain_obs
      \<and> file_ext ''notes.txt'' \<notin> set (skip_errors plain_obs)
      \<and> \<not> skip_all plain_obs \<and> \<not> recognized (file_ext ''notes.txt'')"
    by code_simp
  have c: "length (filter counted
      (reached mixed_world 0 (sort_files mixed_world (files mixed_job)))) = 2"
    by code_simp
  have d: "length (reached mixed_world 0 (sort_files mixed_world (files mixed_job))) = 3"
    by code_simp
  have e: "success_count mixed_job + failure_count mixed_job = 0"
    by (simp add: mixed_job_def init_def)
  from counters_count_reached_files [of mixed_world mixed_job plain_obs "''notes.txt''" 4 2]
  have "success_count (snd (run mixed_world mixed_job))
         + failure_count (snd (run mixed_world mixed_job))
        = success_count mixed_job + failure_count mixed_job
          + length (filter counted (reached mixed_world 0 (sort_files mixed_world (files mixed_job))))"
    and "iteration mixed_world 4 2 ''notes.txt'' plain_obs mixed_job = Continue mixed_job"
    using a b by blast+
  then show ?thesis
    using a d c e by simp
qed

subsection \<open>Failures and the processed-bytes accumulator\<close>





text \<open>
  C5.  The handler of \<open>ImportError\<close> (line 299) does not read the skip-all flag, where
  the two handlers around it do: a job of the single file \<open>doc.pdf\<close>, converted without
  PyMuPDF and with the flag on when the handler runs, still emits an error signal, and
  neither advances the accumulator nor emits a progress signal.
\<close>

theorem import_error_ignores_skip_all:
  "skip_all_on_failure (observe late_skip_world 0)
   \<and> fst (run late_skip_world pdf_job) = Finished
   \<and> emitted (snd (run late_skip_world pdf_job))
       = [Error ''Missing library: PDF conversion requires PyMuPDF. Please install with: pip install PyMuPDF''
            ''IMPORT_ERROR'',
          Completion ''out/doc.png'' 10 0 0 1]
   \<and> processed_size (snd (run late_skip_world pdf_job)) = 0"
  by code_simp

subsection \<open>Sorting the file list\<close>

lemma length_sort_files: "length (sort_files w fs) = length fs"
  by (simp add: sort_files_def)

lemma loop_all_missing:
  assumes "\<And>j. is_running (observe w j) \<and> \<not> file_exists (observe w j) \<and> \<not> skip_all (observe w j)"
  shows "loop w n i fs t =
     (Finished, t\<lparr>emitted := emitted t
                     @ map (\<lambda>f. Error (''File not found: '' @ f) ''FILE_NOT_FOUND'') fs,
                   failure_count := failure_count t + length fs\<rparr>)"
proof (induction fs arbitrary: i t)
  case Nil
  show ?case by simp
next
  case (Cons f fs)
  have "iteration w n i f (observe w i) t =
      Continue ((emit (Error (''File not found: '' @ f) ''FILE_NOT_FOUND'') t)
                  \<lparr>failure_count := failure_count t + 1\<rparr>)"
    using assms [of i] by (simp add: iteration_def Let_def emit_def)
  then show ?case
    by (simp add: Cons.IH emit_def)
qed

text \<open>
  C7 (as stated).  The claim says that a failed size lookup for any file leaves the list
  in its original order.  For a path that does not exist the key of line 85 is 0 and
  the list is sorted all the same: with \<open>gone.png\<close> missing, the job
  \<open>bigbig.png, gone.png, sm.png, zz.png\<close> is walked as \<open>gone.png, sm.png, zz.png,
  bigbig.png\<close>.
\<close>

theorem missing_file_sorted_counterexample:
  "\<not> path_exists vanishing_world ''gone.png''
   \<and> getsize vanishing_world ''gone.png'' = None
   \<and> files sort_job = [''bigbig.png'', ''gone.png'', ''sm.png'', ''zz.png'']
   \<and> files (snd (run vanishing_world sort_job))
       = [''gone.png'', ''sm.png'', ''zz.png'', ''bigbig.png'']
   \<and> files (snd (run vanishing_world sort_job)) \<noteq> files sort_job"
  by code_simp

text \<open>
  C7 (amended).  \<open>run\<close> sorts the file list once, before the loop, and the loop walks
  the sorted list: a stable sort by ascending size, a path that does not exist counting
  as size 0.  Only where the size lookup raises for a path that exists is the sort
  skipped and the original order kept.  No iteration changes the list.
\<close>

theorem files_sorted_once_by_size:
  "(size_lookup_fails w fs \<longleftrightarrow> (\<exists>p \<in> set fs. path_exists w p \<and> getsize w p = None))
   \<and> (size_lookup_fails w fs \<longrightarrow> sort_files w fs = fs)
   \<and> (\<not> size_lookup_fails w fs \<longrightarrow>
         sorted (map (sort_key_of w) (sort_files w fs))
         \<and> mset (sort_files w fs) = mset fs
         \<and> filter (\<lambda>f. sort_key_of w f = k) (sort_files w fs)
             = filter (\<lambda>f. sort_key_of w f = k) fs)
   \<and> (\<not> path_exists w f \<longrightarrow> sort_key_of w f = 0)
   \<and> (path_exists w f \<and> getsize w f = Some z \<longrightarrow> sort_key_of w f = z)
   \<and> files (thread_of (iteration w n i f ob t)) = files t
   \<and> (dir_exists w \<or> makedirs_error w = None \<longrightarrow>
         fst (run w t) \<noteq> Aborted
         \<and> files (snd (run w t)) = sort_files w (files t)
         \<and> run w t =
             (case loop w (length (files t)) 0 (sort_files w (files t))
                     (t\<lparr>last_output_path := [], start_time := clock_start w,
                        output_total_size := 0, files := sort_files w (files t)\<rparr>) of
                (Uncaught, t3) \<Rightarrow> (Uncaught, t3)
              | (ex, t3) \<Rightarrow> (ex, emit (completion t3) t3))
         \<and> ((\<forall>j. is_running (observe w j) \<and> \<not> file_exists (observe w j)
                  \<and> \<not> skip_all (observe w j)) \<longrightarrow>
              emitted (snd (run w t))
                = emitted t
                  @ map (\<lambda>f. Error (''File not found: '' @ f) ''FILE_NOT_FOUND'')
                      (sort_files w (files t))
                  @ [Completion [] (total_size t) 0 (success_count t)
                       (failure_count t + length (files t))]))"
proof -
  have A: "size_lookup_fails w fs \<longleftrightarrow> (\<exists>p \<in> set fs. path_exists w p \<and> getsize w p = None)"
    by (simp add: size_lookup_fails_def)
  have B: "size_lookup_fails w fs \<longrightarrow> sort_files w fs = fs"
    by (simp add: sort_files_def)
  have C: "\<not> size_lookup_fails w fs \<longrightarrow>
         sorted (map (sort_key_of w) (sort_files w fs))
         \<and> mset (sort_files w fs) = mset fs
         \<and> filter (\<lambda>f. sort_key_of w f = k) (sort_files w fs)
             = filter (\<lambda>f. sort_key_of w f = k) fs"
    by (simp add: sort_files_def sort_key_stable)
  have D: "\<not> path_exists w f \<longrightarrow> sort_key_of w f = 0"
    by (simp add: sort_key_of_def)
  have E: "path_exists w f \<and> getsize w f = Some z \<longrightarrow> sort_key_of w f = z"
    by (simp add: sort_key_of_def)
  have F: "files (thread_of (iteration w n i f ob t)) = files t"
    by (rule iteration_files)
  have G: "dir_exists w \<or> makedirs_error w = None \<longrightarrow>
         fst (run w t) \<noteq> Aborted
         \<and> files (snd (run w t)) = sort_files w (files t)
         \<and> run w t =
             (case loop w (length (files t)) 0 (sort_files w (files t))
                     (t\<lparr>last_output_path := [], start_time := clock_start w,
                        output_total_size := 0, files := sort_files w (files t)\<rparr>) of
                (Uncaught, t3) \<Rightarrow> (Uncaught, t3)
              | (ex, t3) \<Rightarrow> (ex, emit (completion t3) t3))
         \<and> ((\<forall>j. is_running (observe w j) \<and> \<not> file_exists (observe w j)
                  \<and> \<not> skip_all (observe w j)) \<longrightarrow>
              emitted (snd (run w t))
                = emitted t
                  @ map (\<lambda>f. Error (''File not found: '' @ f) ''FILE_NOT_FOUND'')
                      (sort_files w (files t))
                  @ [Completion [] (total_size t) 0 (success_count t)
                       (failure_count t + length (files t))])"
  proof (intro conjI impI)
    assume ok: "dir_exists w \<or> makedirs_error w = None"
    then have none: "(if dir_exists w then None else makedirs_error w) = None" by auto
    show "fst (run w t) \<noteq> Aborted"
      using run_aborted_iff [of w t] none by simp
    show "files (snd (run w t)) = sort_files w (files t)"
      using run_unfold(2) [OF none, of t]
      by (simp add: Let_def emit_def loop_files)
    show "run w t =
        (case loop w (length (files t)) 0 (sort_files w (files t))
                (t\<lparr>last_output_path := [], start_time := clock_start w,
                   output_total_size := 0, files := sort_files w (files t)\<rparr>) of
           (Uncaught, t3) \<Rightarrow> (Uncaught, t3)
         | (ex, t3) \<Rightarrow> (ex, emit (completion t3) t3))"
      by (simp add: run_def none Let_def)
    assume all: "\<forall>j. is_running (observe w j) \<and> \<not> file_exists (observe w j)
        \<and> \<not> skip_all (observe w j)"
    then have each: "\<And>j. is_running (observe w j) \<and> \<not> file_exists (observe w j)
        \<and> \<not> skip_all (observe w j)"
      by simp
    show "emitted (snd (run w t))
        = emitted t
          @ map (\<lambda>f. Error (''File not found: '' @ f) ''FILE_NOT_FOUND'')
              (sort_files w (files t))
          @ [Completion [] (total_size t) 0 (success_count t)
               (failure_count t + length (files t))]"
      by (simp add: run_def none Let_def loop_all_missing [OF each] emit_def completion_def
          length_sort_files)
  qed
  from A B C D E F G show ?thesis by (intro conjI)
qed

theorem files_sorted_once_by_size_witness:
  "(dir_exists vanishing_world \<or> makedirs_error vanishing_world = None)
   \<and> (\<forall>j. is_running (observe vanishing_world j) \<and> \<not> file_exists (observe vanishing_world j)
          \<and> \<not> skip_all (observe vanishing_world j))
   \<and> \<not> size_lookup_fails vanishing_world (files sort_job)
   \<and> emitted (snd (run vanishing_world sort_job))
       = [Error ''File not found: gone.png'' ''FILE_NOT_FOUND'',
          Error ''File not found: sm.png'' ''FILE_NOT_FOUND'',
          Error ''File not found: zz.png'' ''FILE_NOT_FOUND'',
          Error ''File not found: bigbig.png'' ''FILE_NOT_FOUND'',
          Completion [] 0 0 0 4]
   \<and> size_lookup_fails locked_world [''ccc.png'', ''a.png'', ''zz.png'', ''bb.png'']
   \<and> sort_files locked_world [''ccc.png'', ''a.png'', ''zz.png'', ''bb.png'']
       = [''ccc.png'', ''a.png'', ''zz.png'', ''bb.png'']"
proof -
  have a: "dir_exists vanishing_world \<or> makedirs_error vanishing_world = None"
    by (simp add: vanishing_world_def)
  have b: "\<forall>j. is_running (observe vanishing_world j) \<and> \<not> file_exists (observe vanishing_world j)
      \<and> \<not> skip_all (observe vanishing_world j)"
    by (simp add: vanishing_world_def plain_obs_def)
  have c: "\<not> size_lookup_fails vanishing_world (files sort_job)"
    by (simp add: size_lookup_fails_def vanishing_world_def sort_job_def init_def)
  have d: "sort_files vanishing_world (files sort_job)
      = [''gone.png'', ''sm.png'', ''zz.png'', ''bigbig.png'']"
    by code_simp
  have e: "emitted sort_job = []" "total_size sort_job = 0" "success_count sort_job = 0"
    "failure_count sort_job = 0" "length (files sort_job) = 4"
    by (simp_all add: sort_job_def init_def)
  from files_sorted_once_by_size [where w = vanishing_world and t = sort_job] a b
  have "emitted (snd (run vanishing_world sort_job))
      = emitted sort_job
        @ map (\<lambda>f. Error (''File not found: '' @ f) ''FILE_NOT_FOUND'')
            (sort_files vanishing_world (files sort_job))
        @ [Completion [] (total_size sort_job) 0 (success_count sort_job)
             (failure_count sort_job + length (files sort_job))]"
    by blast
  then have f: "emitted (snd (run vanishing_world sort_job))
      = [Error ''File not found: gone.png'' ''FILE_NOT_FOUND'',
         Error ''File not found: sm.png'' ''FILE_NOT_FOUND'',
         Error ''File not found: zz.png'' ''FILE_NOT_FOUND'',
         Error ''File not found: bigbig.png'' ''FILE_NOT_FOUND'',
         Completion [] 0 0 0 4]"
    by (simp add: d e)
  have g: "size_lookup_fails locked_world [''ccc.png'', ''a.png'', ''zz.png'', ''bb.png'']"
    by (simp add: size_lookup_fails_def locked_world_def plain_world_def)
  from files_sorted_once_by_size [where w = locked_world
      and fs = "[''ccc.png'', ''a.png'', ''zz.png'', ''bb.png'']"] g
  have h: "sort_files locked_world [''ccc.png'', ''a.png'', ''zz.png'', ''bb.png'']
      = [''ccc.png'', ''a.png'', ''zz.png'', ''bb.png'']"
    by blast
  from a b c f g h show ?thesis by blast
qed

subsection \<open>The processed-bytes accumulator never decreases\<close>

text \<open>
  C9.  Along the iterations of a loop the accumulator is non-decreasing; an iteration
  leaves it as it was or adds the size it looked up for the file (nothing for a missing
  file); and at the end of a run it is at least what it was at the start.
\<close>

theorem processed_size_monotone:
  "sorted (map processed_size (t # history w n i fs t))
   \<and> processed_size (thread_of (iteration w n i f ob t))
       \<in> {processed_size t,
          processed_size t + (case skipped_size ob of Some k \<Rightarrow> k | None \<Rightarrow> 0),
          processed_size t + (case input_size ob of Some k \<Rightarrow> k | None \<Rightarrow> 0)}
   \<and> (is_running ob \<and> \<not> file_exists ob \<longrightarrow>
         processed_size (thread_of (iteration w n i f ob t)) = processed_size t)
   \<and> processed_size t \<le> processed_size (snd (run w t))"
  using history_sorted [of t w n i fs] iteration_processed_size [of w n i f ob t]
    iteration_missing_file [of ob w n i f t] run_processed_mono [of t w]
  by blast

theorem processed_size_monotone_witness:
  "is_running (plain_obs\<lparr>file_exists := False\<rparr>) \<and> \<not> file_exists (plain_obs\<lparr>file_exists := False\<rparr>)
   \<and> map processed_size (png_job # history skipping_world 2 0 [''a.png'', ''b.png''] png_job)
       = [0, 10, 10]
   \<and> sorted (map processed_size (png_job # history skipping_world 2 0 [''a.png'', ''b.png''] png_job))
   \<and> processed_size (thread_of (iteration skipping_world 2 0 ''a.png''
         (plain_obs\<lparr>file_exists := False\<rparr>) png_job)) = processed_size png_job"
proof -
  have a: "is_running (plain_obs\<lparr>file_exists := False\<rparr>) \<and> \<not> file_exists (plain_obs\<lparr>file_exists := False\<rparr>)"
    by (simp add: plain_obs_def)
  have b: "map processed_size (png_job # history skipping_world 2 0 [''a.png'', ''b.png''] png_job)
      = [0, 10, 10]"
    by code_simp
  show ?thesis
    using processed_size_monotone [of png_job skipping_world 2 0 "[''a.png'', ''b.png'']"
        "''a.png''" "plain_obs\<lparr>file_exists := False\<rparr>"] a b
    by simp
qed

section \<open>Properties of the resolution rules and of the ETA text\<close>

subsection \<open>Raster images are only ever enlarged\<close>

lemma truediv_le_one:
  assumes "0 < a" and "a \<le> b"
  shows "int_truediv a b \<le> 1"
proof -
  have b: "(0::rat) < of_int b" using assms by simp
  have pos: "(0::rat) < of_int a / of_int b" using assms by simp
  have "(of_int a :: rat) \<le> of_int b" using assms(2) by simp
  then have "(of_int a :: rat) / of_int b \<le> 1" using b by simp
  then have "py_float (of_int a / of_int b) \<le> py_float 1"
    by (rule py_float_mono [OF pos])
  then show ?thesis by (simp add: int_truediv_def)
qed

lemma truediv_3840_gt_one:
  assumes "0 < W" and "W < 3840"
  shows "1 < int_truediv 3840 W"
proof -
  have w: "(0::rat) < of_int W" using assms by simp
  have "(of_int W :: rat) \<le> 3839" using assms(2) by simp
  then have "(3840::rat) / 3839 \<le> 3840 / of_int W"
    using w by (intro divide_left_mono) simp_all
  then have "py_float (3840 / 3839) \<le> py_float (3840 / of_int W)"
    by (intro py_float_mono) simp_all
  moreover have "1 < py_float (3840 / 3839)" by code_simp
  ultimately show ?thesis by (simp add: int_truediv_def)
qed

lemma truediv_2160_gt_one:
  assumes "0 < H" and "H < 2160"
  shows "1 < int_truediv 2160 H"
proof -
  have h: "(0::rat) < of_int H" using assms by simp
  have "(of_int H :: rat) \<le> 2159" using assms(2) by simp
  then have "(2160::rat) / 2159 \<le> 2160 / of_int H"
    using h by (intro divide_left_mono) simp_all
  then have "py_float (2160 / 2159) \<le> py_float (2160 / of_int H)"
    by (intro py_float_mono) simp_all
  moreover have "1 < py_float (2160 / 2159)" by code_simp
  ultimately show ?thesis by (simp add: int_truediv_def)
qed

lemma raster_scale_spec:
  assumes "0 < W" and "0 < H"
  shows "raster_scale (W, H) = Inr (spec_raster_dims (W, H))"
proof (cases "3840 \<le> W \<and> 2160 \<le> H")
  case True
  then have "int_truediv 3840 W \<le> 1" "int_truediv 2160 H \<le> 1"
    by (simp_all add: truediv_le_one)
  then have "max (max 1 (int_truediv 3840 W)) (max 1 (int_truediv 2160 H)) = 1"
    by simp
  then show ?thesis
    using True assms by (simp add: raster_scale_def spec_raster_dims_def Let_def)
next
  case False
  then have "1 < int_truediv 3840 W \<or> 1 < int_truediv 2160 H"
    using assms truediv_3840_gt_one [of W] truediv_2160_gt_one [of H] by auto
  then have gt: "1 < max (int_truediv 3840 W) (int_truediv 2160 H)"
    by auto
  then have eq: "max 1 (max (int_truediv 3840 W) (int_truediv 2160 H))
      = max (int_truediv 3840 W) (int_truediv 2160 H)"
    by simp
  show ?thesis
    using False assms gt
    by (auto simp add: raster_scale_def spec_raster_dims_def Let_def eq)
qed

text \<open>
  C3.  A raster image (recognized extension other than PSD and PDF) of native size
  \<open>W\<close> by \<open>H\<close> that decodes and saves is saved with the size the specification's rule
  gives, whatever the file size and the resolution preset of the job: unchanged when
  \<open>W \<ge> 3840\<close> and \<open>H \<ge> 2160\<close>, both sides multiplied by \<open>max(1.0, 3840/W, 2160/H)\<close> in
  float arithmetic and truncated otherwise.
\<close>

theorem raster_never_downscaled:
  assumes "0 < W" and "0 < H"
    and "recognized ext" and "ext \<noteq> ''PSD''" and "ext \<noteq> ''PDF''"
    and "opened ob = Inr (W, H)" and "saved ob = None"
  shows "process w t ext file_size ob = Inr (spec_raster_dims (W, H))
       \<and> spec_raster_dims (W, H)
           = (if 3840 \<le> W \<and> 2160 \<le> H then (W, H)
              else (py_int (float_mul (float_of_int W)
                              (max 1 (max (int_truediv 3840 W) (int_truediv 2160 H)))),
                    py_int (float_mul (float_of_int H)
                              (max 1 (max (int_truediv 3840 W) (int_truediv 2160 H))))))"
  using assms raster_scale_spec [of W H]
  by (simp add: process_def raster_dims_def spec_raster_dims_def Let_def)

theorem raster_never_downscaled_witness:
  "recognized ''PNG''
   \<and> opened (plain_obs\<lparr>opened := Inr (1920, 1080)\<rparr>) = Inr (1920, 1080)
   \<and> saved (plain_obs\<lparr>opened := Inr (1920, 1080)\<rparr>) = None
   \<and> process (plain_world (\<lambda>i. plain_obs)) png_job ''PNG'' 10
        (plain_obs\<lparr>opened := Inr (1920, 1080)\<rparr>) = Inr (3840, 2160)
   \<and> process (plain_world (\<lambda>i. plain_obs)) png_job ''PNG'' 10
        (plain_obs\<lparr>opened := Inr (5000, 3000)\<rparr>) = Inr (5000, 3000)"
proof -
  have a: "recognized ''PNG''" by (simp add: recognized_def SUPPORTED_FORMATS_def)
  have b: "opened (plain_obs\<lparr>opened := Inr (1920, 1080)\<rparr>) = Inr (1920, 1080)" by simp
  have c: "saved (plain_obs\<lparr>opened := Inr (1920, 1080)\<rparr>) = None" by (simp add: plain_obs_def)
  have b': "opened (plain_obs\<lparr>opened := Inr (5000, 3000)\<rparr>) = Inr (5000, 3000)" by simp
  have c': "saved (plain_obs\<lparr>opened := Inr (5000, 3000)\<rparr>) = None" by (simp add: plain_obs_def)
  have d: "spec_raster_dims (1920, 1080) = (3840, 2160)" by code_simp
  have e: "process (plain_world (\<lambda>i. plain_obs)) png_job ''PNG'' 10
        (plain_obs\<lparr>opened := Inr (1920, 1080)\<rparr>) = Inr (3840, 2160)"
    using raster_never_downscaled [of 1920 1080 "''PNG''" "plain_obs\<lparr>opened := Inr (1920, 1080)\<rparr>"
        "plain_world (\<lambda>i. plain_obs)" png_job 10] a b c d
    by simp
  have f: "process (plain_world (\<lambda>i. plain_obs)) png_job ''PNG'' 10
        (plain_obs\<lparr>opened := Inr (5000, 3000)\<rparr>) = Inr (5000, 3000)"
    using raster_never_downscaled [of 5000 3000 "''PNG''" "plain_obs\<lparr>opened := Inr (5000, 3000)\<rparr>"
        "plain_world (\<lambda>i. plain_obs)" png_job 10] a b' c'
    by simp
  from a b c e f show ?thesis by blast
qed

text \<open>
  The product is truncated after it was rounded, so an enlarged side can come out one
  pixel short of the minimum: 4000 by 2140 becomes 4037 by 2159.
\<close>

lemma raster_one_pixel_short: "raster_dims 10 (4000, 2140) = Inr (4037, 2159)"
  by code_simp

subsection \<open>Layered documents are fitted to the preset box\<close>














subsection \<open>The ETA text\<close>

lemma floor_divide_int:
  fixes x :: rat
  assumes "0 < n"
  shows "\<lfloor>x / of_int n\<rfloor> = \<lfloor>x\<rfloor> div n"
proof (rule floor_unique)
  define q where "q = \<lfloor>x\<rfloor> div n"
  define m where "m = \<lfloor>x\<rfloor> mod n"
  have n: "(0::rat) < of_int n" using assms by simp
  have f1: "of_int \<lfloor>x\<rfloor> \<le> x" and f2: "x < of_int \<lfloor>x\<rfloor> + 1" by linarith+
  have d: "\<lfloor>x\<rfloor> = q * n + m" by (simp add: q_def m_def)
  have m: "0 \<le> m" "m < n" using assms by (simp_all add: m_def)
  have "q * n \<le> \<lfloor>x\<rfloor>" using d m(1) by linarith
  then have "(of_int (q * n) :: rat) \<le> of_int \<lfloor>x\<rfloor>"
    by (simp only: of_int_le_iff)
  then have "(of_int q :: rat) * of_int n \<le> of_int \<lfloor>x\<rfloor>"
    by simp
  then have "(of_int q :: rat) * of_int n \<le> x"
    using f1 by linarith
  then show "of_int (\<lfloor>x\<rfloor> div n) \<le> x / of_int n"
    using n by (simp add: pos_le_divide_eq q_def)
  have "\<lfloor>x\<rfloor> + 1 \<le> q * n + n"
    using d m(2) by linarith
  then have "(of_int (\<lfloor>x\<rfloor> + 1) :: rat) \<le> of_int (q * n + n)"
    by (simp only: of_int_le_iff)
  then have "(of_int \<lfloor>x\<rfloor> :: rat) + 1 \<le> of_int q * of_int n + of_int n"
    by simp
  then have "x < of_int q * of_int n + of_int n"
    using f2 by linarith
  also have "\<dots> = (of_int q + 1) * of_int n"
    by (simp add: distrib_right)
  finally show "x / of_int n < of_int (\<lfloor>x\<rfloor> div n) + 1"
    using n by (simp add: pos_divide_less_eq q_def)
qed

lemma format_eta_spec:
  assumes "remaining_seconds < 2 ^ 53"
  shows "format_eta remaining_seconds = spec_eta_text (py_int remaining_seconds)"
proof (cases "remaining_seconds < 60")
  case True
  then have "py_int remaining_seconds < 60"
    by (auto simp add: py_int_def floor_less_iff ceiling_less_iff)
  then show ?thesis
    using True by (simp add: format_eta_def spec_eta_text_def)
next
  case False
  then have ge: "60 \<le> remaining_seconds" by simp
  define r where "r = \<lfloor>remaining_seconds\<rfloor>"
  have r60: "60 \<le> r" unfolding r_def using ge by (simp add: le_floor_iff)
  have pr: "py_int remaining_seconds = r"
    using ge by (simp add: py_int_def r_def)
  have q: "\<lfloor>remaining_seconds / 60\<rfloor> = r div 60"
    using floor_divide_int [of 60 remaining_seconds] by (simp add: r_def)
  have qpos: "0 < r div 60" using r60 by (simp add: pos_imp_zdiv_pos_iff)
  have "r < 2 ^ 53"
    unfolding r_def using assms by (simp add: floor_less_iff)
  moreover have "r div 60 < r"
    using r60 by (intro int_div_less_self) simp_all
  ultimately have qlt: "r div 60 < 2 ^ 53" by linarith
  have fd: "float_floordiv remaining_seconds 60 = of_int (r div 60)"
    unfolding float_floordiv_def q by (rule py_float_of_int [OF qpos qlt])
  have a: "py_int (float_floordiv remaining_seconds 60) = r div 60"
    unfolding fd using qpos by (simp add: py_int_def)
  have "float_mod remaining_seconds 60 = remaining_seconds - of_int (60 * (r div 60))"
    by (simp add: float_mod_def q)
  then have "\<lfloor>float_mod remaining_seconds 60\<rfloor> = r - 60 * (r div 60)"
    by (simp only: floor_diff_of_int r_def)
  then have fm: "\<lfloor>float_mod remaining_seconds 60\<rfloor> = r mod 60"
    by (simp add: minus_mult_div_eq_mod)
  have "0 \<le> float_mod remaining_seconds 60"
  proof -
    have "of_int (r div 60) \<le> remaining_seconds / 60"
      using q by (metis of_int_floor_le)
    then show ?thesis by (simp add: float_mod_def q)
  qed
  then have b: "py_int (float_mod remaining_seconds 60) = r mod 60"
    by (simp add: py_int_def fm)
  show ?thesis
    using False r60 by (simp add: format_eta_def spec_eta_text_def a b pr)
qed

text \<open>
  C8 (as stated).  The claim gives the ETA text as exactly \<open>{r}s\<close>.  With 10 bytes
  processed, two seconds elapsed and 34 percent done, three whole seconds remain and the
  text emitted is \<open>ETA: 3s\<close>: the code puts a label in front.
\<close>

theorem eta_text_has_label_counterexample:
  "0 < float_sub 5 (start_time eta_job)
   \<and> py_int (remaining_time (float_sub 5 (start_time eta_job)) 34) = 3
   \<and> fst (eta_speed eta_job 5 34) = ''ETA: 3s''
   \<and> fst (eta_speed eta_job 5 34) \<noteq> str_int 3 @ ''s''"
  by code_simp

text \<open>
  C8 (amended).  Whenever a progress signal carries a determinate ETA (time has elapsed,
  bytes were processed and the percentage is positive), its text for \<open>r\<close> whole remaining
  seconds is \<open>ETA: {r}s\<close> when \<open>r < 60\<close> and \<open>ETA: {r//60}m {r%60}s\<close> otherwise; \<open>r\<close> is the
  remaining time truncated, taken below \<open>2^53\<close> seconds.
\<close>

theorem eta_text_format:
  assumes "0 < float_sub now (start_time t)" and "0 < processed_size t" and "0 < progress"
    and "remaining_time (float_sub now (start_time t)) progress < 2 ^ 53"
  shows "fst (eta_speed t now progress)
       = spec_eta_text (py_int (remaining_time (float_sub now (start_time t)) progress))"
  using assms format_eta_spec [OF assms(4)] by (simp add: eta_speed_def Let_def)

theorem eta_text_format_witness:
  "0 < float_sub 5 (start_time eta_job) \<and> 0 < processed_size eta_job \<and> (0::int) < 34
   \<and> remaining_time (float_sub 5 (start_time eta_job)) 34 < 2 ^ 53
   \<and> fst (eta_speed eta_job 5 34) = ''ETA: 3s''
   \<and> spec_eta_text 125 = ''ETA: 2m 5s''"
proof -
  have a: "0 < float_sub 5 (start_time eta_job)" by code_simp
  have b: "0 < processed_size eta_job" by (simp add: eta_job_def)
  have c: "(0::int) < 34" by simp
  have d: "remaining_time (float_sub 5 (start_time eta_job)) 34 < 2 ^ 53" by code_simp
  have e: "spec_eta_text (py_int (remaining_time (float_sub 5 (start_time eta_job)) 34)) = ''ETA: 3s''"
    by code_simp
  have f: "spec_eta_text 125 = ''ETA: 2m 5s''" by code_simp
  from eta_text_format [OF a b c d] e
  have "fst (eta_speed eta_job 5 34) = ''ETA: 3s''" by simp
  with a b c d f show ?thesis by blast
qed

end
